theory Spec2Isabelle
  imports Complex_Main
begin

section \<open>Wrappers around the EnergyPlus simulation (gym\_energyplus/wrappers.py)\<close>

text \<open>
  The module stacks four adapters over an inner simulation: \<open>RepeatAction\<close> (the
  control-step aggregator), \<open>EnergyPlusWrapper\<close> (the episode segmenter),
  \<open>EnergyPlusObsWrapper\<close> (the observation normalizer) and
  \<open>EnergyPlusDiscreteActionWrapper\<close> (the action quantizer). Each class becomes a
  record of its attributes, each method a function that takes the record and returns
  the updated one next to its result, and each exception a value of \<open>error\<close>.
\<close>

subsection \<open>Python values and exceptions\<close>

datatype error =
    AssertionError
  | ValueError
  | TypeError
  | AttributeError
  | IndexError
  | ZeroDivisionError
  | RuntimeError

datatype pyval = PyNone | PyBool bool | PyInt int | PyFloat real | PyStr string

type_synonym info = "string \<rightharpoonup> pyval"

type_synonym kwargs = "(string \<times> pyval) list"

subsection \<open>Arrays\<close>

text \<open>
  A one-dimensional array is a list of reals. An elementwise binary operation of numpy
  broadcasts: the two lengths must agree unless one of them is 1, and an operand of
  length 1 is stretched.
\<close>

definition broadcastable :: "nat \<Rightarrow> nat \<Rightarrow> bool" where
  "broadcastable m n \<longleftrightarrow> m = n \<or> m = 1 \<or> n = 1"

fun broadcast_map2 :: "(real \<Rightarrow> real \<Rightarrow> real) \<Rightarrow> real list \<Rightarrow> real list \<Rightarrow> real list" where
  "broadcast_map2 f [x] ys = map (f x) ys"
| "broadcast_map2 f xs [y] = map (\<lambda>x. f x y) xs"
| "broadcast_map2 f xs ys = map2 f xs ys"

text \<open>
  Floating-point arithmetic rounds the exact result of every operation. The rounding is
  a parameter \<open>rnd\<close> of the arithmetic below; exact arithmetic is \<open>rnd = (\<lambda>v. v)\<close>.
\<close>

definition fl_mul :: "(real \<Rightarrow> real) \<Rightarrow> real \<Rightarrow> real \<Rightarrow> real" where
  "fl_mul rnd a b = rnd (a * b)"

definition fl_div :: "(real \<Rightarrow> real) \<Rightarrow> real \<Rightarrow> real \<Rightarrow> real" where
  "fl_div rnd a b = rnd (a / b)"

definition fl_add :: "(real \<Rightarrow> real) \<Rightarrow> real \<Rightarrow> real \<Rightarrow> real" where
  "fl_add rnd a b = rnd (a + b)"

subsection \<open>EnergyPlusObsWrapper\<close>

text \<open>\<open>self.obs_max = np.array([50., 50., 50., 1e5, 1e5])\<close>\<close>

definition obs_max :: "real list" where
  "obs_max = [50, 50, 50, 100000, 100000]"

text \<open>
  \<open>reverse_observation\<close>: \<open>obs = normalized_obs * self.obs_max\<close>, then
  \<open>total_power = obs[3] + obs[4]\<close> and \<open>np.insert(obs, 3, total_power)\<close>.
\<close>

definition reverse_observation :: "(real \<Rightarrow> real) \<Rightarrow> real list \<Rightarrow> error + real list" where
  "reverse_observation rnd normalized_obs =
     (if \<not> broadcastable (length normalized_obs) (length obs_max) then Inl ValueError
      else let obs = broadcast_map2 (fl_mul rnd) normalized_obs obs_max in
        if length obs \<le> 4 then Inl IndexError
        else let total_power = fl_add rnd (obs ! 3) (obs ! 4)
             in Inr (take 3 obs @ [total_power] @ drop 3 obs))"

text \<open>
  \<open>observation\<close>: \<open>observation[0:3]\<close> and \<open>observation[4:]\<close> are concatenated and
  divided by \<open>self.obs_max\<close>.
\<close>

definition observation :: "(real \<Rightarrow> real) \<Rightarrow> real list \<Rightarrow> error + real list" where
  "observation rnd raw =
     (let temperature_obs = take 3 raw;
          power_obs = drop 4 raw;
          obs = temperature_obs @ power_obs
      in if \<not> broadcastable (length obs) (length obs_max) then Inl ValueError
         else Inr (broadcast_map2 (fl_div rnd) obs obs_max))"

text \<open>
  A two-dimensional tensor is its number of columns and its rows; every row of a
  well-formed tensor has that many columns.
\<close>

record tensor2 =
  ncols :: nat
  rows :: "real list list"

definition wf_tensor2 :: "tensor2 \<Rightarrow> bool" where
  "wf_tensor2 t \<longleftrightarrow> list_all (\<lambda>r. length r = ncols t) (rows t)"

text \<open>
  \<open>reverse_observation_batch_tensor\<close>: the batch of shape \<open>(B, c)\<close> is multiplied by
  \<open>obs_max_tensor\<close> of shape \<open>(1, 5)\<close>, which broadcasts along both dimensions; then
  \<open>torch.cat((obs[:, :3], obs[:, 3:4] + obs[:, 4:5], obs[:, 3:]), dim=-1)\<close>.
  The product has five columns, so the four slices have 3, 1, 1 and 2 columns and the
  result has six. Slices never fail, and a shape mismatch is torch's RuntimeError.
\<close>

definition reverse_observation_batch_tensor :: "(real \<Rightarrow> real) \<Rightarrow> tensor2 \<Rightarrow> error + tensor2" where
  "reverse_observation_batch_tensor rnd normalized_obs =
     (if \<not> broadcastable (ncols normalized_obs) (length obs_max) then Inl RuntimeError
      else let obs = map (\<lambda>r. broadcast_map2 (fl_mul rnd) r obs_max) (rows normalized_obs);
               total_power = map (\<lambda>r. map2 (fl_add rnd) (take 1 (drop 3 r)) (take 1 (drop 4 r))) obs
           in Inr \<lparr>ncols = 3 + 1 + 2,
                    rows = map2 (\<lambda>r t. take 3 r @ t @ drop 3 r) obs total_power\<rparr>)"

subsection \<open>The inner simulation\<close>

text \<open>
  Every wrapper holds \<open>self.env\<close>, an object of another module, and calls its
  \<open>step\<close> and \<open>reset\<close>. The inner simulation is a state of some type \<open>'s\<close> with a
  transition function for each of the two methods; \<open>env_action_dims\<close> is
  \<open>env.action_space.shape[0]\<close>. The simulation keeps a log of the calls it has
  received, so that "the wrapper calls the inner step" is a fact about the state.
\<close>

type_synonym step_result = "real list \<times> real \<times> bool \<times> info"

record 's env =
  env_step :: "'s \<Rightarrow> real list \<Rightarrow> step_result \<times> 's"
  env_reset :: "'s \<Rightarrow> kwargs \<Rightarrow> real list \<times> 's"
  env_action_dims :: nat

datatype call = StepCall "real list" | ResetCall kwargs

record 's sim =
  sim_state :: 's
  sim_calls :: "call list"

definition inner_step :: "'s env \<Rightarrow> 's sim \<Rightarrow> real list \<Rightarrow> step_result \<times> 's sim" where
  "inner_step E sim action =
     (let (r, s') = env_step E (sim_state sim) action
      in (r, \<lparr>sim_state = s', sim_calls = sim_calls sim @ [StepCall action]\<rparr>))"

definition inner_reset :: "'s env \<Rightarrow> 's sim \<Rightarrow> kwargs \<Rightarrow> real list \<times> 's sim" where
  "inner_reset E sim kw =
     (let (obs, s') = env_reset E (sim_state sim) kw
      in (obs, \<lparr>sim_state = s', sim_calls = sim_calls sim @ [ResetCall kw]\<rparr>))"

subsection \<open>EnergyPlusWrapper\<close>

text \<open>
  The attributes of the class. \<open>last_obs\<close> starts as Python's None, and
  \<open>current_steps\<close> is not assigned by the constructor: it exists only after the first
  \<open>reset\<close>, so until then reading it is an AttributeError.
\<close>

record 's segmenter =
  seg_env :: "'s sim"
  max_steps :: int
  true_done :: bool
  last_obs :: "real list option"
  current_steps :: "int option"

text \<open>
  \<open>gym.spaces.Box(low=-1., high=1., shape=(n,)).contains(x)\<close>: the shape of \<open>x\<close> is
  \<open>(n,)\<close> and every component lies between the bounds.
\<close>

definition box_contains :: "nat \<Rightarrow> real list \<Rightarrow> bool" where
  "box_contains n x \<longleftrightarrow> length x = n \<and> list_all (\<lambda>v. - 1 \<le> v \<and> v \<le> 1) x"

definition EnergyPlusWrapper_init :: "'s sim \<Rightarrow> int \<Rightarrow> error + 's segmenter" where
  "EnergyPlusWrapper_init sim ms =
     (if \<not> ms > 0 then Inl AssertionError
      else Inr \<lparr>seg_env = sim, max_steps = ms, true_done = True,
                last_obs = None, current_steps = None\<rparr>)"

definition get_obs :: "'s segmenter \<Rightarrow> real list option" where
  "get_obs self = last_obs self"

type_synonym seg_result = "real list option \<times> real \<times> bool \<times> info"

text \<open>
  \<open>step\<close>. The result is the returned tuple or the exception raised, next to the
  object as the call leaves it: an exception does not undo the assignments made before
  it.
\<close>

definition segmenter_step ::
  "'s env \<Rightarrow> 's segmenter \<Rightarrow> real list \<Rightarrow> (error + seg_result) \<times> 's segmenter" where
  "segmenter_step E self action =
     (if \<not> box_contains (env_action_dims E) action then (Inl AssertionError, self)
      else
        let ((obs, reward, done, info), sim') = inner_step E (seg_env self) action;
            self1 = self\<lparr>seg_env := sim', last_obs := Some obs\<rparr>
        in if done then
             let self2 = self1\<lparr>true_done := True\<rparr>;
                 info' = info(''true_done'' \<mapsto> PyBool True)
             in (Inr (get_obs self2, reward, done, info'), self2)
           else
             let info' = info(''true_done'' \<mapsto> PyBool False)
             in case current_steps self1 of
                  None \<Rightarrow> (Inl AttributeError, self1)
                | Some c \<Rightarrow>
                    let self2 = self1\<lparr>current_steps := Some (c + 1)\<rparr>
                    in if c + 1 = max_steps self2 then (Inr (get_obs self2, reward, True, info'), self2)
                       else if c + 1 < max_steps self2 then (Inr (get_obs self2, reward, done, info'), self2)
                       else (Inl ValueError, self2))"

definition segmenter_reset ::
  "'s env \<Rightarrow> 's segmenter \<Rightarrow> kwargs \<Rightarrow> real list option \<times> 's segmenter" where
  "segmenter_reset E self kw =
     (let self1 = (if true_done self then
                     let (obs, sim') = inner_reset E (seg_env self) kw
                     in self\<lparr>seg_env := sim', last_obs := Some obs, true_done := False\<rparr>
                   else self);
          self2 = self1\<lparr>current_steps := Some 0\<rparr>
      in (get_obs self2, self2))"

text \<open>A caller that issues one \<open>step\<close> per action of a list and keeps every outcome.\<close>

fun segmenter_steps ::
  "'s env \<Rightarrow> 's segmenter \<Rightarrow> real list list \<Rightarrow> (error + seg_result) list \<times> 's segmenter" where
  "segmenter_steps E self [] = ([], self)"
| "segmenter_steps E self (a # as) =
     (let (r, self') = segmenter_step E self a;
          (rs, self'') = segmenter_steps E self' as
      in (r # rs, self''))"

subsection \<open>RepeatAction\<close>

record 's repeat_action =
  ra_env :: "'s sim"
  ra_last_obs :: "real list option"
  ra_reward :: "real list"
  ra_obs :: "real list list"

definition RepeatAction_init :: "'s sim \<Rightarrow> 's repeat_action" where
  "RepeatAction_init sim = \<lparr>ra_env = sim, ra_last_obs = None, ra_reward = [], ra_obs = []\<rparr>"

text \<open>
  \<open>np.mean(self.obs, axis=0)\<close> stacks the observations of the window, which must all
  have one shape, and averages each column; \<open>np.mean(self.reward)\<close> averages the
  scalars. The means are the exact ones. Of an empty list numpy's mean is nan, which no
  real is; \<open>step\<close> never gets there, since it appends to both lists before it averages.
\<close>

definition np_mean :: "real list \<Rightarrow> real" where
  "np_mean xs = sum_list xs / real (length xs)"

definition np_mean_axis0 :: "real list list \<Rightarrow> error + real list" where
  "np_mean_axis0 xss =
     (case xss of
        [] \<Rightarrow> Inl ValueError
      | xs # _ \<Rightarrow>
          if \<not> list_all (\<lambda>ys. length ys = length xs) xss then Inl ValueError
          else Inr (map (\<lambda>j. np_mean (map (\<lambda>ys. ys ! j) xss)) [0..<length xs]))"

text \<open>
  The \<open>while\<close> loop of \<open>step\<close>. \<open>np.array_equal(obs[:3], self.last_obs[:3])\<close> compares
  the two slices, shape and elements. Nothing bounds the number of iterations: the loop
  runs for as long as the inner simulation repeats the first three fields without
  terminating, and a run that never ends has no result (\<open>None\<close>).
\<close>

partial_function (option) repeat_loop ::
  "'s env \<Rightarrow> real list \<Rightarrow> real list \<Rightarrow> step_result \<times> 's repeat_action
     \<Rightarrow> (step_result \<times> 's repeat_action) option" where
  "repeat_loop E action base rs =
     (case rs of ((obs, reward, done, info), self) \<Rightarrow>
        if take 3 obs = take 3 base \<and> \<not> done then
          (case inner_step E (ra_env self) action of
             ((obs', reward', done', info'), sim') \<Rightarrow>
               repeat_loop E action base
                 ((obs', reward', done', info'),
                  self\<lparr>ra_env := sim', ra_obs := ra_obs self @ [obs'],
                       ra_reward := ra_reward self @ [reward']\<rparr>))
        else Some rs)"

text \<open>
  \<open>step\<close>. With \<open>self.last_obs\<close> still None, the loop condition raises a TypeError
  after the first inner step has been taken and recorded.
\<close>

definition RepeatAction_step ::
  "'s env \<Rightarrow> 's repeat_action \<Rightarrow> real list
     \<Rightarrow> ((error + step_result) \<times> 's repeat_action) option" where
  "RepeatAction_step E self action =
     (case inner_step E (ra_env self) action of
        ((obs, reward, done, info), sim') \<Rightarrow>
          let self1 = self\<lparr>ra_env := sim', ra_obs := ra_obs self @ [obs],
                           ra_reward := ra_reward self @ [reward]\<rparr>
          in case ra_last_obs self1 of
               None \<Rightarrow> Some (Inl TypeError, self1)
             | Some base \<Rightarrow>
                 (case repeat_loop E action base ((obs, reward, done, info), self1) of
                    None \<Rightarrow> None
                  | Some ((obs2, reward2, done2, info2), self2) \<Rightarrow>
                      let self3 = self2\<lparr>ra_last_obs := Some obs2\<rparr>
                      in case np_mean_axis0 (ra_obs self3) of
                           Inl e \<Rightarrow> Some (Inl e, self3)
                         | Inr obs3 \<Rightarrow>
                             let reward3 = np_mean (ra_reward self3);
                                 self4 = self3\<lparr>ra_obs := [], ra_reward := []\<rparr>
                             in Some (Inr (obs3, reward3, done2, info2), self4)))"

definition RepeatAction_reset ::
  "'s env \<Rightarrow> 's repeat_action \<Rightarrow> kwargs \<Rightarrow> real list \<times> 's repeat_action" where
  "RepeatAction_reset E self kw =
     (let (obs, sim') = inner_reset E (ra_env self) kw
      in (obs, self\<lparr>ra_env := sim', ra_last_obs := Some obs\<rparr>))"

text \<open>
  The first \<open>k\<close> results of repeating one action on the inner simulation, and the
  simulation after them.
\<close>

fun inner_steps :: "'s env \<Rightarrow> 's sim \<Rightarrow> real list \<Rightarrow> nat \<Rightarrow> step_result list \<times> 's sim" where
  "inner_steps E sim action 0 = ([], sim)"
| "inner_steps E sim action (Suc k) =
     (let (r, sim') = inner_step E sim action;
          (rs, sim'') = inner_steps E sim' action k
      in (r # rs, sim''))"

text \<open>The condition of the \<open>while\<close> loop on the result of the latest inner step.\<close>

definition continues :: "real list \<Rightarrow> step_result \<Rightarrow> bool" where
  "continues base r \<longleftrightarrow> take 3 (fst r) = take 3 base \<and> \<not> fst (snd (snd r))"

subsection \<open>EnergyPlusDiscreteActionWrapper\<close>

text \<open>
  \<open>np.linspace(start, stop, num)\<close>: \<open>num\<close> evenly spaced points from \<open>start\<close> to
  \<open>stop\<close>, both included; a negative \<open>num\<close> is a ValueError.
\<close>

definition np_linspace :: "real \<Rightarrow> real \<Rightarrow> int \<Rightarrow> error + real list" where
  "np_linspace start stop num =
     (if num < 0 then Inl ValueError
      else if num = 1 then Inr [start]
      else Inr (map (\<lambda>i. start + real i * ((stop - start) / real_of_int (num - 1)))
                  [0..<nat num]))"

text \<open>
  \<open>table[indices]\<close> with a list of integers: a negative index counts from the end, and
  an index out of range is an IndexError.
\<close>

definition np_take :: "real list \<Rightarrow> int list \<Rightarrow> error + real list" where
  "np_take table indices =
     (let n = int (length table)
      in if \<not> list_all (\<lambda>i. - n \<le> i \<and> i < n) indices then Inl IndexError
         else Inr (map (\<lambda>i. table ! nat (if i < 0 then n + i else i)) indices))"

text \<open>
  The attributes: \<open>discrete_n\<close> is the size of \<open>self.action_space = Discrete(...)\<close>,
  whose members are the integers from 0 up to it, and \<open>dims\<close> is
  \<open>self.env.action_space.shape[0]\<close>.
\<close>

record quantizer =
  discrete_n :: int
  action_table :: "real list"
  num_levels :: int
  dims :: nat

definition EnergyPlusDiscreteActionWrapper_init :: "nat \<Rightarrow> int \<Rightarrow> error + quantizer" where
  "EnergyPlusDiscreteActionWrapper_init d nl =
     (case np_linspace (- 1) 1 nl of
        Inl e \<Rightarrow> Inl e
      | Inr table \<Rightarrow>
          Inr \<lparr>discrete_n = nl ^ d, action_table = table, num_levels = nl, dims = d\<rparr>)"

text \<open>
  The \<open>for\<close> loop of \<open>action\<close>, run \<open>k\<close> more times: \<open>remainder = action % num_levels\<close>
  is appended to \<open>binary_action\<close> and \<open>action\<close> becomes
  \<open>(action - remainder) // num_levels\<close>.
\<close>

fun action_loop :: "nat \<Rightarrow> int \<Rightarrow> int \<Rightarrow> int list \<Rightarrow> error + int list" where
  "action_loop 0 nl a binary_action = Inr binary_action"
| "action_loop (Suc k) nl a binary_action =
     (if nl = 0 then Inl ZeroDivisionError
      else let remainder = a mod nl
           in action_loop k nl ((a - remainder) div nl) (binary_action @ [remainder]))"

definition action :: "quantizer \<Rightarrow> int \<Rightarrow> error + real list" where
  "action self a =
     (if \<not> (0 \<le> a \<and> a < discrete_n self) then Inl AssertionError
      else case action_loop (dims self) (num_levels self) a [] of
             Inl e \<Rightarrow> Inl e
           | Inr binary_action \<Rightarrow> np_take (action_table self) binary_action)"

text \<open>The body of \<open>reverse_action\<close> is \<open>pass\<close>: it returns Python's None.\<close>

definition reverse_action :: "quantizer \<Rightarrow> real list \<Rightarrow> int option" where
  "reverse_action self a = None"

text \<open>Digit \<open>i\<close> of \<open>a\<close> in base \<open>nl\<close>, the least significant being digit 0.\<close>

definition digit :: "int \<Rightarrow> int \<Rightarrow> nat \<Rightarrow> int" where
  "digit nl a i = (a div nl ^ i) mod nl"

subsection \<open>A scripted inner simulation\<close>

text \<open>
  An inner simulation to run the wrappers on: its state counts the sub-steps taken, its
  first observation field changes once every \<open>K\<close> sub-steps, the reward of a sub-step
  is its number, and every step reports \<open>terminal\<close> as its \<open>done\<close>.
\<close>

definition scripted_env :: "nat \<Rightarrow> bool \<Rightarrow> nat env" where
  "scripted_env K terminal =
     \<lparr>env_step = (\<lambda>s a. (([real ((s + 1) div K), 20, 21, real s], real s, terminal, Map.empty), s + 1)),
      env_reset = (\<lambda>s kw. ([0, 20, 21, 0], 0)),
      env_action_dims = 1\<rparr>"

definition fresh_sim :: "nat sim" where
  "fresh_sim = \<lparr>sim_state = 0, sim_calls = []\<rparr>"

definition fresh_segmenter :: "int \<Rightarrow> nat segmenter" where
  "fresh_segmenter ms = \<lparr>seg_env = fresh_sim, max_steps = ms, true_done = True,
                last_obs = None, current_steps = None\<rparr>"

section \<open>Properties\<close>

subsection \<open>Observation normalizer\<close>

lemma broadcast_map2_long:
  "broadcast_map2 f xs (a # b # ys) =
     (case xs of [x] \<Rightarrow> map (f x) (a # b # ys) | _ \<Rightarrow> map2 f xs (a # b # ys))"
proof (cases xs)
  case Nil
  then show ?thesis by simp
next
  case (Cons x xs')
  then show ?thesis by (cases xs') simp_all
qed

lemma length_broadcast_obs_max:
  "broadcastable (length xs) (length obs_max) \<Longrightarrow> length (broadcast_map2 f xs obs_max) = 5"
  by (auto simp: broadcastable_def obs_max_def broadcast_map2_long split: list.splits)

lemma observation_length:
  "observation rnd raw = Inr x \<Longrightarrow> length x = 5"
  by (auto simp: observation_def Let_def length_broadcast_obs_max split: if_splits)

lemma length5E:
  assumes "length x = 5"
  obtains a b c d e where "x = [a, b, c, d, e]"
  using assms by (auto simp: length_Suc_conv eval_nat_numeral)

lemma reverse_observation_5:
  "reverse_observation rnd [a, b, c, d, e] =
     Inr [rnd (a * 50), rnd (b * 50), rnd (c * 50),
          rnd (rnd (d * 100000) + rnd (e * 100000)), rnd (d * 100000), rnd (e * 100000)]"
  by (simp add: reverse_observation_def broadcastable_def obs_max_def fl_mul_def fl_add_def Let_def)

lemma observation_6:
  "observation rnd [a, b, c, t, d, e] =
     Inr [rnd (a / 50), rnd (b / 50), rnd (c / 50), rnd (d / 100000), rnd (e / 100000)]"
  by (simp add: observation_def broadcastable_def obs_max_def fl_div_def Let_def)

lemma round_trip_error:
  fixes rnd :: "real \<Rightarrow> real"
  assumes r: "\<forall>v. \<bar>rnd v - v\<bar> \<le> eps * \<bar>v\<bar>" and m: "0 < m"
  shows "\<bar>rnd (rnd (a * m) / m) - a\<bar> \<le> (2 * eps + eps\<^sup>2) * \<bar>a\<bar>"
proof -
  have e0: "0 \<le> eps" using r[rule_format, of 1] by simp
  define p where "p = rnd (a * m)"
  have "\<bar>p - a * m\<bar> \<le> eps * \<bar>a * m\<bar>" unfolding p_def using r by blast
  then have "\<bar>p - a * m\<bar> / m \<le> eps * \<bar>a * m\<bar> / m" using m by (simp add: divide_right_mono)
  moreover have "p / m - a = (p - a * m) / m" using m by (simp add: field_simps)
  then have "\<bar>p / m - a\<bar> = \<bar>p - a * m\<bar> / m" using m by (simp add: abs_divide)
  moreover have "eps * \<bar>a * m\<bar> / m = eps * \<bar>a\<bar>" using m by (simp add: abs_mult)
  ultimately have q: "\<bar>p / m - a\<bar> \<le> eps * \<bar>a\<bar>" by simp
  then have qa: "\<bar>p / m\<bar> \<le> \<bar>a\<bar> + eps * \<bar>a\<bar>" by linarith
  have "\<bar>rnd (p / m) - p / m\<bar> \<le> eps * \<bar>p / m\<bar>" using r by blast
  also have "\<dots> \<le> eps * (\<bar>a\<bar> + eps * \<bar>a\<bar>)" using qa e0 by (rule mult_left_mono)
  finally have "\<bar>rnd (p / m) - p / m\<bar> \<le> eps * (\<bar>a\<bar> + eps * \<bar>a\<bar>)" .
  with q have "\<bar>rnd (p / m) - a\<bar> \<le> eps * \<bar>a\<bar> + eps * (\<bar>a\<bar> + eps * \<bar>a\<bar>)" by linarith
  also have "\<dots> = (2 * eps + eps\<^sup>2) * \<bar>a\<bar>" by (simp add: algebra_simps power2_eq_square)
  finally show ?thesis unfolding p_def .
qed

text \<open>
  C1. A normalized observation \<open>x\<close> that \<open>observation\<close> produced goes through
  \<open>reverse_observation\<close> and \<open>observation\<close> again: the inverse inserts the total power
  at index 3 and multiplies by \<open>obs_max\<close>, the forward transform drops index 3 and divides
  by \<open>obs_max\<close>, so field \<open>i\<close> of the result is \<open>x ! i\<close> multiplied and divided by the same
  maximum, each operation rounded once. With a rounding of relative error at most \<open>eps\<close>
  the result is within \<open>(2 eps + eps\<^sup>2) \<bar>x ! i\<bar>\<close> of \<open>x ! i\<close>, and equal to it in
  exact arithmetic (\<open>eps = 0\<close>).
\<close>

theorem observation_reverse_observation_roundtrip:
  fixes rnd :: "real \<Rightarrow> real"
  assumes r: "\<forall>v. \<bar>rnd v - v\<bar> \<le> eps * \<bar>v\<bar>"
    and x: "observation rnd raw = Inr x"
  shows "\<exists>y z. reverse_observation rnd x = Inr y \<and> length y = Suc (length x)
           \<and> observation rnd y = Inr z
           \<and> z = map2 (\<lambda>v m. rnd (rnd (v * m) / m)) x obs_max
           \<and> length z = length x
           \<and> (\<forall>i<length x. \<bar>z ! i - x ! i\<bar> \<le> (2 * eps + eps\<^sup>2) * \<bar>x ! i\<bar>)"
proof -
  from x have "length x = 5" by (rule observation_length)
  then obtain a b c d e where xe: "x = [a, b, c, d, e]" by (rule length5E)
  have b1: "\<And>v. \<bar>rnd (rnd (v * 50) / 50) - v\<bar> \<le> (2 * eps + eps\<^sup>2) * \<bar>v\<bar>"
    using round_trip_error[OF r, of 50] by simp
  have b2: "\<And>v. \<bar>rnd (rnd (v * 100000) / 100000) - v\<bar> \<le> (2 * eps + eps\<^sup>2) * \<bar>v\<bar>"
    using round_trip_error[OF r, of 100000] by simp
  have bound: "\<forall>i<5. \<bar>[rnd (rnd (a * 50) / 50), rnd (rnd (b * 50) / 50), rnd (rnd (c * 50) / 50),
        rnd (rnd (d * 100000) / 100000), rnd (rnd (e * 100000) / 100000)] ! i - [a, b, c, d, e] ! i\<bar>
        \<le> (2 * eps + eps\<^sup>2) * \<bar>[a, b, c, d, e] ! i\<bar>"
    using b1 b2 by (simp add: All_less_Suc eval_nat_numeral)
  show ?thesis
    unfolding xe reverse_observation_5
    using bound by (simp add: observation_6 obs_max_def)
qed

theorem observation_reverse_observation_roundtrip_witness:
  "(\<forall>v::real. \<bar>v * (1025 / 1024) - v\<bar> \<le> (1 / 1024) * \<bar>v\<bar>)
   \<and> observation (\<lambda>v. v * (1025 / 1024)) [20, 25, 30, 3000, 1000, 2000]
       = Inr [205 / 512, 1025 / 2048, 615 / 1024, 41 / 4096, 41 / 2048]
   \<and> (\<exists>y z. reverse_observation (\<lambda>v. v * (1025 / 1024))
               [205 / 512, 1025 / 2048, 615 / 1024, 41 / 4096, 41 / 2048] = Inr y
        \<and> length y = Suc (length [205 / 512, 1025 / 2048, 615 / 1024, 41 / 4096, 41 / 2048 :: real])
        \<and> observation (\<lambda>v. v * (1025 / 1024)) y = Inr z
        \<and> z = map2 (\<lambda>v m. v * m * (1025 / 1024) / m * (1025 / 1024))
                 [205 / 512, 1025 / 2048, 615 / 1024, 41 / 4096, 41 / 2048] obs_max
        \<and> length z = length [205 / 512, 1025 / 2048, 615 / 1024, 41 / 4096, 41 / 2048 :: real]
        \<and> (\<forall>i<length [205 / 512, 1025 / 2048, 615 / 1024, 41 / 4096, 41 / 2048 :: real].
              \<bar>z ! i - [205 / 512, 1025 / 2048, 615 / 1024, 41 / 4096, 41 / 2048] ! i\<bar>
              \<le> (2 * (1 / 1024) + (1 / 1024)\<^sup>2)
                 * \<bar>[205 / 512, 1025 / 2048, 615 / 1024, 41 / 4096, 41 / 2048] ! i\<bar>))"
proof -
  have h1: "\<forall>v::real. \<bar>v * (1025 / 1024) - v\<bar> \<le> (1 / 1024) * \<bar>v\<bar>"
    by (simp add: abs_if)
  have h2: "observation (\<lambda>v. v * (1025 / 1024)) [20, 25, 30, 3000, 1000, 2000]
       = Inr [205 / 512, 1025 / 2048, 615 / 1024, 41 / 4096, 41 / 2048]"
    by (simp add: observation_def broadcastable_def obs_max_def fl_div_def Let_def)
  from observation_reverse_observation_roundtrip [OF h1 h2] h1 h2 show ?thesis by blast
qed


lemma reverse_observation_row:
  assumes "broadcastable (length r) (length obs_max)"
  shows "reverse_observation rnd r =
     Inr (take 3 (broadcast_map2 (fl_mul rnd) r obs_max)
          @ map2 (fl_add rnd) (take 1 (drop 3 (broadcast_map2 (fl_mul rnd) r obs_max)))
                              (take 1 (drop 4 (broadcast_map2 (fl_mul rnd) r obs_max)))
          @ drop 3 (broadcast_map2 (fl_mul rnd) r obs_max))"
proof -
  have "length (broadcast_map2 (fl_mul rnd) r obs_max) = 5"
    using assms by (rule length_broadcast_obs_max)
  then obtain a b c d e where "broadcast_map2 (fl_mul rnd) r obs_max = [a, b, c, d, e]"
    by (rule length5E)
  then show ?thesis using assms by (simp add: reverse_observation_def Let_def)
qed

text \<open>
  C7. Every row of the batched inverse is the single-sample inverse of that row of the
  batch, for a batch of any number of rows and columns; where the batch's shape is
  rejected, so is every one of its rows.
\<close>

theorem reverse_observation_batch_rowwise:
  assumes wf: "wf_tensor2 t" and i: "i < length (rows t)"
  shows "case reverse_observation_batch_tensor rnd t of
           Inr t' \<Rightarrow> length (rows t') = length (rows t)
                     \<and> reverse_observation rnd (rows t ! i) = Inr (rows t' ! i)
         | Inl e \<Rightarrow> reverse_observation rnd (rows t ! i) = Inl ValueError"
proof -
  from wf i have len: "length (rows t ! i) = ncols t"
    by (simp add: wf_tensor2_def list_all_length)
  show ?thesis
  proof (cases "broadcastable (ncols t) (length obs_max)")
    case True
    then have "broadcastable (length (rows t ! i)) (length obs_max)" using len by simp
    from reverse_observation_row[OF this] True i show ?thesis
      by (simp add: reverse_observation_batch_tensor_def Let_def)
  next
    case False
    then show ?thesis using len
      by (simp add: reverse_observation_batch_tensor_def reverse_observation_def)
  qed
qed

theorem reverse_observation_batch_rowwise_witness:
  "wf_tensor2 \<lparr>ncols = 5, rows = [[1, 2, 3, 4, 5], [0, 1 / 2, 1, 1 / 10, 1 / 5]]\<rparr>
   \<and> (1::nat) < length (rows \<lparr>ncols = 5, rows = [[1, 2, 3, 4, 5], [0, 1 / 2, 1, 1 / 10, 1 / 5]]\<rparr>)
   \<and> reverse_observation_batch_tensor (\<lambda>v. v)
        \<lparr>ncols = 5, rows = [[1, 2, 3, 4, 5], [0, 1 / 2, 1, 1 / 10, 1 / 5]]\<rparr>
       = Inr \<lparr>ncols = 6, rows = [[50, 100, 150, 900000, 400000, 500000],
                                  [0, 25, 50, 30000, 10000, 20000]]\<rparr>
   \<and> reverse_observation (\<lambda>v. v) [0, 1 / 2, 1, 1 / 10, 1 / 5] = Inr [0, 25, 50, 30000, 10000, 20000]"
proof -
  let ?t = "\<lparr>ncols = 5, rows = [[1, 2, 3, 4, 5], [0, 1 / 2, 1, 1 / 10, 1 / 5 :: real]]\<rparr>"
  have h1: "wf_tensor2 ?t" by (simp add: wf_tensor2_def)
  have h2: "(1::nat) < length (rows ?t)" by simp
  have b: "reverse_observation_batch_tensor (\<lambda>v. v) ?t
       = Inr \<lparr>ncols = 6, rows = [[50, 100, 150, 900000, 400000, 500000],
                                  [0, 25, 50, 30000, 10000, 20000]]\<rparr>"
    by (simp add: reverse_observation_batch_tensor_def broadcastable_def obs_max_def
        fl_mul_def fl_add_def Let_def)
  from reverse_observation_batch_rowwise [OF h1 h2, of "\<lambda>v. v"] h1 h2 b show ?thesis by simp
qed
subsection \<open>Episode segmenter\<close>

lemma inner_step_calls:
  "sim_calls (snd (inner_step E sim a)) = sim_calls sim @ [StepCall a]"
  by (simp add: inner_step_def split: prod.splits)

lemma inner_reset_calls:
  "sim_calls (snd (inner_reset E sim kw)) = sim_calls sim @ [ResetCall kw]"
  by (simp add: inner_reset_def split: prod.splits)

lemma inner_step_done:
  "inner_step E sim a = ((obs, reward, done, info), sim')
     \<Longrightarrow> done = fst (snd (snd (fst (env_step E (sim_state sim) a))))"
  by (auto simp: inner_step_def split: prod.splits)

lemma segmenter_step_not_done:
  assumes nd: "\<forall>s a. \<not> fst (snd (snd (fst (env_step E s a))))"
    and box: "box_contains (env_action_dims E) a"
    and cs: "current_steps self = Some c"
    and le: "c + 1 \<le> max_steps self"
  shows "\<exists>obs reward info self'.
           segmenter_step E self a =
             (Inr (Some obs, reward, c + 1 = max_steps self, info), self')
           \<and> info ''true_done'' = Some (PyBool False)
           \<and> current_steps self' = Some (c + 1) \<and> max_steps self' = max_steps self
           \<and> true_done self' = true_done self"
proof -
  obtain obs reward dn info sim' where
    i: "inner_step E (seg_env self) a = ((obs, reward, dn, info), sim')"
    by (metis prod.exhaust)
  from inner_step_done[OF i] nd have d: "\<not> dn" by simp
  show ?thesis
    using box i d cs le
    by (auto simp: segmenter_step_def get_obs_def Let_def)
qed

lemma segmenter_steps_not_done:
  assumes nd: "\<forall>s a. \<not> fst (snd (snd (fst (env_step E s a))))"
  shows "list_all (box_contains (env_action_dims E)) acts
     \<Longrightarrow> current_steps self = Some c
     \<Longrightarrow> c + int (length acts) \<le> max_steps self
     \<Longrightarrow> (case segmenter_steps E self acts of (rs, self') \<Rightarrow>
           length rs = length acts
           \<and> (\<forall>i<length acts. \<exists>obs reward info.
                 rs ! i = Inr (Some obs, reward, c + int i + 1 = max_steps self, info)
                 \<and> info ''true_done'' = Some (PyBool False))
           \<and> true_done self' = true_done self)"
proof (induction acts arbitrary: self c)
  case Nil
  then show ?case by simp
next
  case (Cons a as)
  from Cons.prems have box: "box_contains (env_action_dims E) a"
    and rest: "list_all (box_contains (env_action_dims E)) as"
    and le1: "c + 1 \<le> max_steps self" by simp_all
  from segmenter_step_not_done[OF nd box Cons.prems(2) le1]
  obtain obs reward info self1 where
    s: "segmenter_step E self a = (Inr (Some obs, reward, c + 1 = max_steps self, info), self1)"
    and inf: "info ''true_done'' = Some (PyBool False)"
    and cs1: "current_steps self1 = Some (c + 1)"
    and ms1: "max_steps self1 = max_steps self"
    and td1: "true_done self1 = true_done self" by blast
  have le: "c + 1 + int (length as) \<le> max_steps self1" using Cons.prems(3) ms1 by simp
  obtain rs self2 where r: "segmenter_steps E self1 as = (rs, self2)"
    by (cases "segmenter_steps E self1 as")
  from Cons.IH[OF rest cs1 le] r have
    len: "length rs = length as"
    and each: "\<forall>i<length as. \<exists>obs reward info.
                 rs ! i = Inr (Some obs, reward, c + 1 + int i + 1 = max_steps self1, info)
                 \<and> info ''true_done'' = Some (PyBool False)"
    and td2: "true_done self2 = true_done self1" by simp_all
  have "\<forall>i<length (a # as). \<exists>obs' reward' info'.
          (Inr (Some obs, reward, c + 1 = max_steps self, info) # rs) ! i
             = Inr (Some obs', reward', c + int i + 1 = max_steps self, info')
          \<and> info' ''true_done'' = Some (PyBool False)"
  proof (intro allI impI)
    fix i assume "i < length (a # as)"
    show "\<exists>obs' reward' info'.
          (Inr (Some obs, reward, c + 1 = max_steps self, info) # rs) ! i
             = Inr (Some obs', reward', c + int i + 1 = max_steps self, info')
          \<and> info' ''true_done'' = Some (PyBool False)"
    proof (cases i)
      case 0
      then show ?thesis using inf by simp
    next
      case (Suc j)
      with \<open>i < length (a # as)\<close> have "j < length as" by simp
      with each obtain o' r' i' where
        "rs ! j = Inr (Some o', r', c + 1 + int j + 1 = max_steps self1, i')"
        "i' ''true_done'' = Some (PyBool False)" by blast
      then show ?thesis using Suc ms1 by (simp add: add.commute add.left_commute)
    qed
  qed
  then show ?case using s r len td1 td2 by simp
qed

lemma scripted_never_done:
  "\<forall>s a. \<not> fst (snd (snd (fst (env_step (scripted_env K False) s a))))"
  by (simp add: scripted_env_def)

text \<open>
  C2. After a \<open>reset\<close>, with \<open>max_steps = M > 0\<close>, an inner simulation that never
  reports \<open>done\<close> and \<open>M\<close> actions within the bound, the \<open>M\<close> calls of \<open>step\<close> all
  return a result with \<open>info['true_done'] = False\<close>; \<open>done\<close> is False in the first
  \<open>M - 1\<close> results and True in the last, and the \<open>true_done\<close> attribute stays unset.
\<close>

theorem segmenter_max_steps_boundary:
  assumes pos: "0 < max_steps self0"
    and nd: "\<forall>s a. \<not> fst (snd (snd (fst (env_step E s a))))"
    and len: "int (length acts) = max_steps self0"
    and box: "list_all (box_contains (env_action_dims E)) acts"
  shows "case segmenter_steps E (snd (segmenter_reset E self0 kw)) acts of (rs, self') \<Rightarrow>
           length rs = length acts
           \<and> (\<forall>i<length acts. \<exists>obs reward info.
                 rs ! i = Inr (Some obs, reward, int i = max_steps self0 - 1, info)
                 \<and> info ''true_done'' = Some (PyBool False))
           \<and> \<not> true_done self'"
proof -
  let ?self = "snd (segmenter_reset E self0 kw)"
  have cs: "current_steps ?self = Some 0" and ms: "max_steps ?self = max_steps self0"
    and td: "\<not> true_done ?self"
    by (simp_all add: segmenter_reset_def Let_def split: prod.splits)
  have le: "0 + int (length acts) \<le> max_steps ?self" using len ms by simp
  from segmenter_steps_not_done[OF nd box cs le] show ?thesis
    using ms td by (auto split: prod.splits simp: algebra_simps)
qed

theorem segmenter_max_steps_boundary_witness:
  "EnergyPlusWrapper_init fresh_sim 3 = Inr (fresh_segmenter 3)
   \<and> map (map_sum id (\<lambda>(obs, reward, dn, info). (dn, info ''true_done'')))
        (fst (segmenter_steps (scripted_env 2 False)
               (snd (segmenter_reset (scripted_env 2 False) (fresh_segmenter 3) []))
               [[0], [1 / 2], [- 1]]))
       = [Inr (False, Some (PyBool False)), Inr (False, Some (PyBool False)),
          Inr (True, Some (PyBool False))]"
proof -
  have pos: "0 < max_steps (fresh_segmenter 3)" by (simp add: fresh_segmenter_def)
  have len: "int (length [[0], [1 / 2], [- 1 :: real]]) = max_steps (fresh_segmenter 3)"
    by (simp add: fresh_segmenter_def)
  have box: "list_all (box_contains (env_action_dims (scripted_env 2 False))) [[0], [1 / 2], [- 1]]"
    by (simp add: box_contains_def scripted_env_def)
  from segmenter_max_steps_boundary [OF pos scripted_never_done len box, of "[]"]
  show ?thesis
    by (simp add: EnergyPlusWrapper_init_def fresh_segmenter_def fresh_sim_def
        segmenter_reset_def segmenter_step_def inner_step_def inner_reset_def
        scripted_env_def box_contains_def get_obs_def Let_def)
qed

text \<open>
  C5. Whenever the inner step reports \<open>done\<close>, whatever \<open>current_steps\<close> is (even
  unassigned or beyond \<open>max_steps\<close>), \<open>step\<close> returns \<open>done = True\<close> with
  \<open>info['true_done'] = True\<close> and sets the \<open>true_done\<close> attribute; the next \<open>reset\<close>
  then calls the inner reset and returns its observation.
\<close>

theorem segmenter_true_done_propagates:
  assumes box: "box_contains (env_action_dims E) act"
    and inner: "inner_step E (seg_env self) act = ((obs, reward, True, info), sim')"
  shows "segmenter_step E self act =
           (Inr (Some obs, reward, True, info(''true_done'' \<mapsto> PyBool True)),
            self\<lparr>seg_env := sim', last_obs := Some obs, true_done := True\<rparr>)
         \<and> (\<exists>obs' self'. segmenter_reset E (snd (segmenter_step E self act)) kw = (Some obs', self')
               \<and> (obs', seg_env self') = inner_reset E sim' kw
               \<and> sim_calls (seg_env self') = sim_calls sim' @ [ResetCall kw]
               \<and> last_obs self' = Some obs' \<and> \<not> true_done self' \<and> current_steps self' = Some 0)"
proof -
  have s: "segmenter_step E self act =
           (Inr (Some obs, reward, True, info(''true_done'' \<mapsto> PyBool True)),
            self\<lparr>seg_env := sim', last_obs := Some obs, true_done := True\<rparr>)"
    using box inner by (simp add: segmenter_step_def get_obs_def)
  obtain obs' sim'' where r: "inner_reset E sim' kw = (obs', sim'')" by (cases "inner_reset E sim' kw")
  have c: "sim_calls sim'' = sim_calls sim' @ [ResetCall kw]"
    using inner_reset_calls[of E sim' kw] r by simp
  show ?thesis
    unfolding s using r c by (simp add: segmenter_reset_def get_obs_def)
qed


theorem segmenter_true_done_propagates_witness:
  "segmenter_step (scripted_env 2 True) (fresh_segmenter 3) [0] =
     (Inr (Some [0, 20, 21, 0], 0, True, [''true_done'' \<mapsto> PyBool True]),
      \<lparr>seg_env = \<lparr>sim_state = 1, sim_calls = [StepCall [0]]\<rparr>, max_steps = 3, true_done = True,
        last_obs = Some [0, 20, 21, 0], current_steps = None\<rparr>)
   \<and> segmenter_reset (scripted_env 2 True)
        (snd (segmenter_step (scripted_env 2 True) (fresh_segmenter 3) [0])) [] =
     (Some [0, 20, 21, 0],
      \<lparr>seg_env = \<lparr>sim_state = 0, sim_calls = [StepCall [0], ResetCall []]\<rparr>, max_steps = 3,
        true_done = False, last_obs = Some [0, 20, 21, 0], current_steps = Some 0\<rparr>)"
proof -
  have box: "box_contains (env_action_dims (scripted_env 2 True)) [0]"
    by (simp add: box_contains_def scripted_env_def)
  have inner: "inner_step (scripted_env 2 True) (seg_env (fresh_segmenter 3)) [0] =
      (([0, 20, 21, 0], 0, True, Map.empty), \<lparr>sim_state = 1, sim_calls = [StepCall [0]]\<rparr>)"
    by (simp add: inner_step_def scripted_env_def fresh_segmenter_def fresh_sim_def)
  from segmenter_true_done_propagates [OF box inner, of "[]"]
  show ?thesis
    by (simp add: segmenter_step_def segmenter_reset_def inner_step_def inner_reset_def
        scripted_env_def fresh_segmenter_def fresh_sim_def box_contains_def get_obs_def Let_def)
qed


text \<open>
  C6. \<open>reset\<close> calls the inner reset exactly when \<open>true_done\<close> is set, and then stores
  and returns the fresh observation; otherwise it leaves the inner simulation and
  \<open>last_obs\<close> alone and returns the stored observation. Either way \<open>current_steps\<close>
  becomes 0. A freshly constructed wrapper has \<open>true_done\<close> set.
\<close>

theorem segmenter_reset_real_iff_true_done:
  "(case segmenter_reset E self kw of (obs, self') \<Rightarrow>
      current_steps self' = Some 0 \<and> obs = last_obs self' \<and> max_steps self' = max_steps self
      \<and> \<not> true_done self'
      \<and> ((sim_calls (seg_env self') = sim_calls (seg_env self) @ [ResetCall kw]) = true_done self)
      \<and> (if true_done self
         then (the (last_obs self'), seg_env self') = inner_reset E (seg_env self) kw
              \<and> last_obs self' \<noteq> None
         else seg_env self' = seg_env self \<and> last_obs self' = last_obs self))
   \<and> (case EnergyPlusWrapper_init sim ms of Inr self0 \<Rightarrow> true_done self0 | Inl e \<Rightarrow> \<not> ms > 0)"
proof -
  obtain obs' sim' where r: "inner_reset E (seg_env self) kw = (obs', sim')"
    by (cases "inner_reset E (seg_env self) kw")
  have c: "sim_calls sim' = sim_calls (seg_env self) @ [ResetCall kw]"
    using inner_reset_calls[of E "seg_env self" kw] r by simp
  show ?thesis
    using r c by (simp add: segmenter_reset_def get_obs_def EnergyPlusWrapper_init_def)
qed


theorem segmenter_reset_real_iff_true_done_witness:
  "segmenter_reset (scripted_env 2 False) (fresh_segmenter 3) [] =
     (Some [0, 20, 21, 0],
      \<lparr>seg_env = \<lparr>sim_state = 0, sim_calls = [ResetCall []]\<rparr>, max_steps = 3, true_done = False,
        last_obs = Some [0, 20, 21, 0], current_steps = Some 0\<rparr>)
   \<and> segmenter_reset (scripted_env 2 False)
        \<lparr>seg_env = \<lparr>sim_state = 3, sim_calls = [ResetCall [], StepCall [0], StepCall [0], StepCall [0]]\<rparr>,
          max_steps = 3, true_done = False, last_obs = Some [1, 20, 21, 2], current_steps = Some 3\<rparr> [] =
     (Some [1, 20, 21, 2],
      \<lparr>seg_env = \<lparr>sim_state = 3, sim_calls = [ResetCall [], StepCall [0], StepCall [0], StepCall [0]]\<rparr>,
        max_steps = 3, true_done = False, last_obs = Some [1, 20, 21, 2], current_steps = Some 0\<rparr>)"
  using segmenter_reset_real_iff_true_done [where E = "scripted_env 2 False" and self = "fresh_segmenter 3" and kw = "[]"
      and sim = fresh_sim and ms = 3]
  by (simp add: segmenter_reset_def inner_reset_def scripted_env_def fresh_segmenter_def
      fresh_sim_def get_obs_def Let_def)


text \<open>
  C8. \<open>step\<close> with an action that has a component above 1 or below -1 raises the
  AssertionError of the bounds check: it returns no result, clamped or otherwise.
\<close>

theorem segmenter_step_rejects_out_of_bound:
  assumes "\<exists>v\<in>set act. v > 1 \<or> v < - 1"
  shows "fst (segmenter_step E self act) = Inl AssertionError"
proof -
  from assms obtain v where "v \<in> set act" and "\<not> (- 1 \<le> v \<and> v \<le> 1)"
    by auto
  then have "\<not> list_all (\<lambda>v. - 1 \<le> v \<and> v \<le> 1) act"
    unfolding list_all_iff by blast
  then show ?thesis by (simp add: segmenter_step_def box_contains_def)
qed


theorem segmenter_step_rejects_out_of_bound_witness:
  "fst (segmenter_step (scripted_env 2 False)
         (snd (segmenter_reset (scripted_env 2 False) (fresh_segmenter 3) [])) [3 / 2])
     = Inl AssertionError"
proof -
  have "\<exists>v\<in>set [3 / 2 :: real]. v > 1 \<or> v < - 1" by (intro bexI[of _ "3 / 2"]) simp_all
  from segmenter_step_rejects_out_of_bound [OF this] show ?thesis .
qed


text \<open>
  C10. A \<open>step\<close> that raises the AssertionError was given an action outside the bound
  and leaves the wrapper as it was: \<open>current_steps\<close>, \<open>true_done\<close>, \<open>last_obs\<close> and the
  inner simulation, which has received no call.
\<close>

theorem segmenter_rejection_atomic:
  assumes "fst (segmenter_step E self act) = Inl AssertionError"
  shows "snd (segmenter_step E self act) = self
         \<and> \<not> box_contains (env_action_dims E) act
         \<and> sim_calls (seg_env (snd (segmenter_step E self act))) = sim_calls (seg_env self)"
proof -
  have "\<not> box_contains (env_action_dims E) act"
    using assms
    by (auto simp: segmenter_step_def Let_def split: prod.splits if_splits option.splits)
  then show ?thesis by (simp add: segmenter_step_def)
qed

theorem segmenter_rejection_atomic_witness:
  "snd (segmenter_step (scripted_env 2 False)
         (snd (segmenter_reset (scripted_env 2 False) (fresh_segmenter 3) [])) [- 2])
     = \<lparr>seg_env = \<lparr>sim_state = 0, sim_calls = [ResetCall []]\<rparr>, max_steps = 3, true_done = False,
        last_obs = Some [0, 20, 21, 0], current_steps = Some 0\<rparr>"
proof -
  let ?self = "snd (segmenter_reset (scripted_env 2 False) (fresh_segmenter 3) [])"
  have r: "?self = \<lparr>seg_env = \<lparr>sim_state = 0, sim_calls = [ResetCall []]\<rparr>, max_steps = 3,
        true_done = False, last_obs = Some [0, 20, 21, 0], current_steps = Some 0\<rparr>"
    by (simp add: segmenter_reset_def inner_reset_def scripted_env_def fresh_segmenter_def
        fresh_sim_def get_obs_def Let_def)
  have h: "fst (segmenter_step (scripted_env 2 False) ?self [- 2]) = Inl AssertionError"
    by (simp add: segmenter_step_def box_contains_def scripted_env_def)
  from segmenter_rejection_atomic [OF h] r show ?thesis by simp
qed

subsection \<open>Control-step aggregator\<close>

lemma inner_steps_Suc:
  "inner_steps E sim a (Suc k) =
     (fst (inner_step E sim a) # fst (inner_steps E (snd (inner_step E sim a)) a k),
      snd (inner_steps E (snd (inner_step E sim a)) a k))"
  by (simp split: prod.splits)

lemma inner_steps_length: "length (fst (inner_steps E sim a k)) = k"
  by (induction k arbitrary: sim) (simp_all add: inner_steps_Suc del: inner_steps.simps(2))

lemma inner_steps_calls:
  "sim_calls (snd (inner_steps E sim a k)) = sim_calls sim @ replicate k (StepCall a)"
  by (induction k arbitrary: sim)
     (simp_all add: inner_steps_Suc inner_step_calls replicate_app_Cons_same
        del: inner_steps.simps(2))

lemma repeat_loop_stop:
  "\<not> continues base r \<Longrightarrow> repeat_loop E a base (r, self) = Some (r, self)"
  by (subst repeat_loop.simps) (auto simp: continues_def split: prod.splits)

lemma repeat_loop_go:
  assumes "continues base r" and "inner_step E (ra_env self) a = (r1, sim1)"
  shows "repeat_loop E a base (r, self) =
           repeat_loop E a base
             (r1, self\<lparr>ra_env := sim1, ra_obs := ra_obs self @ [fst r1],
                       ra_reward := ra_reward self @ [fst (snd r1)]\<rparr>)"
  using assms
  by (subst repeat_loop.simps) (auto simp: continues_def split: prod.splits)

lemma repeat_loop_run:
  "inner_steps E (ra_env self) a k = (rs, sim')
   \<Longrightarrow> \<forall>i<k. continues base ((r # rs) ! i)
   \<Longrightarrow> \<not> continues base ((r # rs) ! k)
   \<Longrightarrow> repeat_loop E a base (r, self) =
         Some ((r # rs) ! k,
               self\<lparr>ra_env := sim', ra_obs := ra_obs self @ map fst rs,
                    ra_reward := ra_reward self @ map (\<lambda>x. fst (snd x)) rs\<rparr>)"
proof (induction k arbitrary: self r rs)
  case 0
  then show ?case by (simp add: repeat_loop_stop)
next
  case (Suc k)
  obtain r1 sim1 where s: "inner_step E (ra_env self) a = (r1, sim1)"
    by (cases "inner_step E (ra_env self) a")
  obtain rs' where t: "inner_steps E sim1 a k = (rs', sim')" and rs: "rs = r1 # rs'"
    using Suc.prems(1) s by (auto split: prod.splits)
  let ?self1 = "self\<lparr>ra_env := sim1, ra_obs := ra_obs self @ [fst r1],
                       ra_reward := ra_reward self @ [fst (snd r1)]\<rparr>"
  have c0: "continues base r" using Suc.prems(2) by auto
  have t1: "inner_steps E (ra_env ?self1) a k = (rs', sim')" using t by simp
  have c1: "\<forall>i<k. continues base ((r1 # rs') ! i)"
    using Suc.prems(2) rs by auto
  have c2: "\<not> continues base ((r1 # rs') ! k)" using Suc.prems(3) rs by simp
  from Suc.IH[OF t1 c1 c2] repeat_loop_go[OF c0 s]
  show ?case using rs by simp
qed

lemma np_mean_axis0_same:
  assumes "xss \<noteq> []" and "\<forall>xs\<in>set xss. length xs = n"
  shows "np_mean_axis0 xss =
           Inr (map (\<lambda>j. sum_list (map (\<lambda>ys. ys ! j) xss) / real (length xss)) [0..<n])"
  using assms
  by (cases xss) (auto simp: np_mean_axis0_def np_mean_def list_all_iff)

text \<open>
  The window buffers are empty in a new wrapper and after every \<open>step\<close> that returns
  a result, and \<open>reset\<close> does not touch them.
\<close>

lemma RepeatAction_init_buffers:
  "ra_obs (RepeatAction_init sim) = [] \<and> ra_reward (RepeatAction_init sim) = []"
  by (simp add: RepeatAction_init_def)

lemma RepeatAction_reset_buffers:
  "ra_obs (snd (RepeatAction_reset E self kw)) = ra_obs self
   \<and> ra_reward (snd (RepeatAction_reset E self kw)) = ra_reward self"
  by (simp add: RepeatAction_reset_def split: prod.splits)

lemma RepeatAction_step_buffers:
  "RepeatAction_step E self act = Some (Inr r, self') \<Longrightarrow> ra_obs self' = [] \<and> ra_reward self' = []"
  by (auto simp: RepeatAction_step_def Let_def split: prod.splits option.splits sum.splits)

text \<open>
  C4. Let the window buffers be empty and \<open>base\<close> be the stored observation. If, of
  the results of repeating the action on the inner simulation, the first \<open>K - 1\<close> have
  the first three fields of \<open>base\<close> and are not \<open>done\<close>, and the \<open>K\<close>-th has other
  first three fields, then \<open>step\<close> returns, having made exactly those \<open>K\<close> inner calls,
  all with the given action: the observation is the pointwise mean of the \<open>K\<close>
  observations, the reward the mean of the \<open>K\<close> rewards, and \<open>done\<close> and \<open>info\<close> are
  those of the \<open>K\<close>-th result. The \<open>K\<close>-th observation becomes the stored one and the
  buffers are empty again.
\<close>

theorem repeat_action_step_window:
  assumes e1: "ra_obs self = []" and e2: "ra_reward self = []"
    and base: "ra_last_obs self = Some base"
    and K: "0 < K"
    and tr: "inner_steps E (ra_env self) act K = (rs, sim')"
    and same: "\<forall>i<K - 1. take 3 (fst (rs ! i)) = take 3 base \<and> \<not> fst (snd (snd (rs ! i)))"
    and change: "take 3 (fst (rs ! (K - 1))) \<noteq> take 3 base"
    and shape: "\<forall>i<K. length (fst (rs ! i)) = n"
  shows "RepeatAction_step E self act =
           Some (Inr (map (\<lambda>j. sum_list (map (\<lambda>r. fst r ! j) rs) / real K) [0..<n],
                      sum_list (map (\<lambda>r. fst (snd r)) rs) / real K,
                      fst (snd (snd (rs ! (K - 1)))),
                      snd (snd (snd (rs ! (K - 1))))),
                 self\<lparr>ra_env := sim', ra_last_obs := Some (fst (rs ! (K - 1)))\<rparr>)
         \<and> length rs = K
         \<and> sim_calls sim' = sim_calls (ra_env self) @ replicate K (StepCall act)"
proof -
  obtain k where k: "K = Suc k" using K by (cases K) auto
  obtain r sim1 where s: "inner_step E (ra_env self) act = (r, sim1)"
    by (cases "inner_step E (ra_env self) act")
  obtain rs' where t: "inner_steps E sim1 act k = (rs', sim')" and rs: "rs = r # rs'"
    using tr s k by (auto split: prod.splits)
  have len: "length rs = K" using inner_steps_length[of E "ra_env self" act K] tr by simp
  have calls: "sim_calls sim' = sim_calls (ra_env self) @ replicate K (StepCall act)"
    using inner_steps_calls[of E "ra_env self" act K] tr by simp
  let ?self1 = "self\<lparr>ra_env := sim1, ra_obs := ra_obs self @ [fst r],
                       ra_reward := ra_reward self @ [fst (snd r)]\<rparr>"
  have t1: "inner_steps E (ra_env ?self1) act k = (rs', sim')" using t by simp
  have c1: "\<forall>i<k. continues base ((r # rs') ! i)"
    using same k rs by (simp add: continues_def)
  have c2: "\<not> continues base ((r # rs') ! k)"
    using change k rs by (simp add: continues_def)
  have loop: "repeat_loop E act base (r, ?self1) =
         Some (rs ! k,
               self\<lparr>ra_env := sim', ra_obs := map fst rs,
                    ra_reward := map (\<lambda>x. fst (snd x)) rs\<rparr>)"
    using repeat_loop_run[OF t1 c1 c2] rs e1 e2 by simp
  have sh: "\<forall>xs\<in>set (map fst rs). length xs = n"
  proof
    fix xs assume "xs \<in> set (map fst rs)"
    then obtain i where "i < length rs" and "xs = fst (rs ! i)"
      by (auto simp: in_set_conv_nth)
    then show "length xs = n" using shape len by simp
  qed
  have ne: "map fst rs \<noteq> []" using rs by simp
  have mean: "np_mean_axis0 (map fst rs) =
           Inr (map (\<lambda>j. sum_list (map (\<lambda>r. fst r ! j) rs) / real K) [0..<n])"
    using np_mean_axis0_same[OF ne sh] len by (simp add: comp_def)
  have step: "RepeatAction_step E self act =
           Some (Inr (map (\<lambda>j. sum_list (map (\<lambda>r. fst r ! j) rs) / real K) [0..<n],
                      sum_list (map (\<lambda>r. fst (snd r)) rs) / real K,
                      fst (snd (snd (rs ! (K - 1)))),
                      snd (snd (snd (rs ! (K - 1))))),
                 self\<lparr>ra_env := sim', ra_last_obs := Some (fst (rs ! (K - 1)))\<rparr>)"
    unfolding RepeatAction_step_def s
    using base loop mean len k e1 e2
    by (cases r; cases "rs ! k") (simp add: Let_def np_mean_def)
  show ?thesis using step len calls by simp
qed

theorem repeat_action_step_window_witness:
  "RepeatAction_step (scripted_env 2 False)
      (snd (RepeatAction_reset (scripted_env 2 False) (RepeatAction_init fresh_sim) [])) [1 / 2]
     = Some (Inr ([1 / 2, 20, 21, 1 / 2], 1 / 2, False, Map.empty),
             \<lparr>ra_env = \<lparr>sim_state = 2,
                         sim_calls = [ResetCall [], StepCall [1 / 2], StepCall [1 / 2]]\<rparr>,
               ra_last_obs = Some [1, 20, 21, 1], ra_reward = [], ra_obs = []\<rparr>)"
proof -
  let ?E = "scripted_env 2 False"
  let ?self = "snd (RepeatAction_reset ?E (RepeatAction_init fresh_sim) [])"
  let ?rs = "[([0, 20, 21, 0], 0, False, Map.empty), ([1, 20, 21, 1], 1, False, Map.empty)]
               :: step_result list"
  let ?sim = "\<lparr>sim_state = 2 :: nat, sim_calls = [ResetCall [], StepCall [1 / 2], StepCall [1 / 2]]\<rparr>"
  have self: "?self = \<lparr>ra_env = \<lparr>sim_state = 0, sim_calls = [ResetCall []]\<rparr>,
               ra_last_obs = Some [0, 20, 21, 0], ra_reward = [], ra_obs = []\<rparr>"
    by (simp add: RepeatAction_reset_def RepeatAction_init_def inner_reset_def scripted_env_def
        fresh_sim_def)
  have e1: "ra_obs ?self = []" and e2: "ra_reward ?self = []"
    and base: "ra_last_obs ?self = Some [0, 20, 21, 0]"
    by (simp_all add: self)
  have K: "0 < (2::nat)" by simp
  have tr: "inner_steps ?E (ra_env ?self) [1 / 2] 2 = (?rs, ?sim)"
    unfolding self by (simp add: inner_step_def scripted_env_def eval_nat_numeral)
  have same: "\<forall>i<2 - 1. take 3 (fst (?rs ! i)) = take 3 [0, 20, 21, 0] \<and> \<not> fst (snd (snd (?rs ! i)))"
    by simp
  have change: "take 3 (fst (?rs ! (2 - 1))) \<noteq> take 3 [0, 20, 21, 0]" by simp
  have shape: "\<forall>i<2. length (fst (?rs ! i)) = 4"
    by (simp add: All_less_Suc eval_nat_numeral)
  have "RepeatAction_step ?E ?self [1 / 2] =
      Some (Inr ([1 / 2, 20, 21, 1 / 2], 1 / 2, False, Map.empty),
            ?self\<lparr>ra_env := ?sim, ra_last_obs := Some [1, 20, 21, 1]\<rparr>)"
    using repeat_action_step_window [OF e1 e2 base K tr same change shape]
    by (simp add: eval_nat_numeral)
  then show ?thesis unfolding self by simp
qed
subsection \<open>Action quantizer\<close>

lemma digit_0: "digit nl a 0 = a mod nl"
  by (simp add: digit_def)

lemma digit_Suc: "0 \<le> nl \<Longrightarrow> digit nl a (Suc i) = digit nl (a div nl) i"
  by (simp add: digit_def zdiv_zmult2_eq)

lemma action_loop_digits:
  "0 < nl \<Longrightarrow> action_loop k nl a acc = Inr (acc @ map (digit nl a) [0..<k])"
proof (induction k arbitrary: a acc)
  case 0
  then show ?case by simp
next
  case (Suc k)
  have step: "(a - a mod nl) div nl = a div nl"
    using Suc.prems by (simp add: minus_mod_eq_mult_div)
  have "map (digit nl a) [0..<Suc k] = digit nl a 0 # map (digit nl (a div nl)) [0..<k]"
    using Suc.prems by (simp add: map_upt_Suc digit_Suc del: upt_Suc)
  then show ?case
    using Suc.prems Suc.IH[OF Suc.prems, of "a div nl" "acc @ [a mod nl]"]
    by (simp add: step digit_0 Let_def del: upt_Suc)
qed

lemma int_div_less:
  fixes a nl m :: int
  assumes "0 < nl" and "a < nl * m"
  shows "a div nl < m"
proof (rule ccontr)
  assume "\<not> a div nl < m"
  then have "nl * m \<le> nl * (a div nl)" using assms(1) by (simp add: mult_left_mono)
  moreover have "nl * (a div nl) \<le> a"
    using mult_div_mod_eq[of nl a] pos_mod_sign[OF assms(1), of a] by linarith
  ultimately show False using assms(2) by linarith
qed

lemma digits_inj:
  "0 < nl \<Longrightarrow> 0 \<le> a \<Longrightarrow> a < nl ^ d \<Longrightarrow> 0 \<le> b \<Longrightarrow> b < nl ^ d
   \<Longrightarrow> \<forall>i<d. digit nl a i = digit nl b i \<Longrightarrow> a = b"
proof (induction d arbitrary: a b)
  case 0
  then show ?case by simp
next
  case (Suc d)
  have a1: "0 \<le> a div nl" and b1: "0 \<le> b div nl"
    using Suc.prems by (simp_all add: pos_imp_zdiv_nonneg_iff)
  have a2: "a div nl < nl ^ d" and b2: "b div nl < nl ^ d"
    using Suc.prems by (simp_all add: int_div_less)
  have "\<forall>i<d. digit nl (a div nl) i = digit nl (b div nl) i"
    using Suc.prems(1,6) by (auto simp: digit_Suc[symmetric])
  from Suc.IH[OF Suc.prems(1) a1 a2 b1 b2 this] have q: "a div nl = b div nl" .
  have r: "a mod nl = b mod nl" using Suc.prems(6) digit_0 by (metis zero_less_Suc)
  have "a = nl * (a div nl) + a mod nl" by simp
  also have "\<dots> = nl * (b div nl) + b mod nl" using q r by simp
  also have "\<dots> = b" by simp
  finally show ?case .
qed

lemma linspace_table:
  assumes "np_linspace (- 1) 1 nl = Inr table"
  shows "0 \<le> nl" and "length table = nat nl"
    and "\<forall>j<nat nl. table ! j = (if nl = 1 then - 1 else - 1 + real j * (2 / real_of_int (nl - 1)))"
  using assms by (auto simp: np_linspace_def split: if_splits)

text \<open>
  C9. For a wrapper built with \<open>nl\<close> levels over \<open>d\<close> dimensions and an index
  \<open>0 \<le> idx < nl ^ d\<close>, \<open>action\<close> returns a vector of length \<open>d\<close> whose component \<open>i\<close>
  is the entry of the action table at digit \<open>i\<close> of \<open>idx\<close> in base \<open>nl\<close> (digit 0 the
  least significant); the table has \<open>nl\<close> entries, evenly spaced from -1 to 1. Two
  indices of the range with the same digits are equal.
\<close>

theorem action_mixed_radix:
  assumes init: "EnergyPlusDiscreteActionWrapper_init d nl = Inr self"
    and lo: "0 \<le> idx" and hi: "idx < nl ^ d"
  shows "\<exists>v. action self idx = Inr v \<and> length v = d
           \<and> length (action_table self) = nat nl
           \<and> (\<forall>i<d. 0 \<le> (idx div nl ^ i) mod nl \<and> (idx div nl ^ i) mod nl < nl
                 \<and> v ! i = action_table self ! nat ((idx div nl ^ i) mod nl)
                 \<and> v ! i = (if nl = 1 then - 1
                            else - 1 + real_of_int ((idx div nl ^ i) mod nl) * (2 / real_of_int (nl - 1))))
           \<and> (\<forall>idx'. 0 \<le> idx' \<and> idx' < nl ^ d
                 \<and> action_loop d nl idx' [] = action_loop d nl idx [] \<longrightarrow> idx' = idx)"
proof (cases "d = 0")
  case True
  then show ?thesis using init lo hi
    by (auto simp: EnergyPlusDiscreteActionWrapper_init_def action_def np_take_def
        np_linspace_def split: sum.splits if_splits)
next
  case False
  obtain table where lin: "np_linspace (- 1) 1 nl = Inr table"
    and self: "self = \<lparr>discrete_n = nl ^ d, action_table = table, num_levels = nl, dims = d\<rparr>"
    using init by (auto simp: EnergyPlusDiscreteActionWrapper_init_def split: sum.splits)
  note tab = linspace_table[OF lin]
  have pos: "0 < nl"
  proof (rule ccontr)
    assume "\<not> 0 < nl"
    with tab(1) have "nl = 0" by simp
    with False hi lo show False by (simp add: zero_power)
  qed
  have dig: "\<And>i. 0 \<le> digit nl idx i \<and> digit nl idx i < nl"
    using pos by (simp add: digit_def)
  have loop: "action_loop d nl idx [] = Inr (map (digit nl idx) [0..<d])"
    using action_loop_digits[OF pos, of d idx "[]"] by simp
  have ok: "list_all (\<lambda>i. - int (length table) \<le> i \<and> i < int (length table)) (map (digit nl idx) [0..<d])"
    using dig tab(2) pos by (auto simp: list_all_iff intro: order_trans[of _ 0])
  have act: "action self idx = Inr (map (\<lambda>i. table ! nat (digit nl idx i)) [0..<d])"
    using lo hi loop ok dig
    by (simp add: action_def self np_take_def Let_def comp_def not_less[symmetric])
  have val: "\<forall>i<d. table ! nat (digit nl idx i) =
      (if nl = 1 then - 1 else - 1 + real_of_int (digit nl idx i) * (2 / real_of_int (nl - 1)))"
  proof (intro allI impI)
    fix i
    have "nat (digit nl idx i) < nat nl" using dig[of i] pos by simp
    with tab(3) have "table ! nat (digit nl idx i) =
       (if nl = 1 then - 1 else - 1 + real (nat (digit nl idx i)) * (2 / real_of_int (nl - 1)))"
      by blast
    moreover have "real (nat (digit nl idx i)) = real_of_int (digit nl idx i)"
      using dig[of i] by simp
    ultimately show "table ! nat (digit nl idx i) =
      (if nl = 1 then - 1 else - 1 + real_of_int (digit nl idx i) * (2 / real_of_int (nl - 1)))"
      by simp
  qed
  have inj: "\<forall>idx'. 0 \<le> idx' \<and> idx' < nl ^ d
                 \<and> action_loop d nl idx' [] = action_loop d nl idx [] \<longrightarrow> idx' = idx"
  proof (intro allI impI)
    fix idx' assume h: "0 \<le> idx' \<and> idx' < nl ^ d
                 \<and> action_loop d nl idx' [] = action_loop d nl idx []"
    then have "map (digit nl idx') [0..<d] = map (digit nl idx) [0..<d]"
      using action_loop_digits[OF pos, of d idx' "[]"] loop by simp
    then have "\<forall>i<d. digit nl idx' i = digit nl idx i" by (simp add: map_eq_conv)
    with digits_inj[OF pos _ _ lo hi, of idx'] h show "idx' = idx" by blast
  qed
  show ?thesis
    using act val inj dig tab(2) by (simp add: self digit_def)
qed

theorem action_mixed_radix_witness:
  "EnergyPlusDiscreteActionWrapper_init 4 4 =
     Inr \<lparr>discrete_n = 256, action_table = [- 1, - 1 / 3, 1 / 3, 1], num_levels = 4, dims = 4\<rparr>
   \<and> action \<lparr>discrete_n = 256, action_table = [- 1, - 1 / 3, 1 / 3, 1], num_levels = 4, dims = 4\<rparr> 27
       = Inr [1, 1 / 3, - 1 / 3, - 1]
   \<and> action_loop 4 4 27 [] = Inr [3, 2, 1, 0]"
proof -
  let ?w = "\<lparr>discrete_n = 256, action_table = [- 1, - 1 / 3, 1 / 3, 1], num_levels = 4, dims = 4\<rparr>"
  have init: "EnergyPlusDiscreteActionWrapper_init 4 4 = Inr ?w"
    by (simp add: EnergyPlusDiscreteActionWrapper_init_def np_linspace_def eval_nat_numeral)
  have lo: "(0::int) \<le> 27" and hi: "(27::int) < 4 ^ 4" by simp_all
  have l: "action_loop 4 4 27 [] = Inr [3, 2, 1, 0]"
    by (simp add: eval_nat_numeral)
  have t: "np_take [- 1, - 1 / 3, 1 / 3, 1] [3, 2, 1, 0] = Inr [1, 1 / 3, - 1 / 3, - 1]"
    by (simp add: np_take_def eval_nat_numeral)
  from action_mixed_radix [OF init lo hi]
  obtain v where v: "action ?w 27 = Inr v" and "length v = 4" by blast
  have "action ?w 27 = Inr [1, 1 / 3, - 1 / 3, - 1]"
    using l t by (simp add: action_def)
  with v init l show ?thesis by simp
qed

text \<open>
  C3. \<open>reverse_action\<close> is not an inverse of \<open>action\<close>: its body is empty, so it
  returns None for every vector. With four levels over four dimensions, index 27 maps
  to the vector \<open>[1, 1/3, -1/3, -1]\<close>, and \<open>reverse_action\<close> of that vector is None, not
  27.
\<close>

theorem reverse_action_returns_none:
  "EnergyPlusDiscreteActionWrapper_init 4 4 =
     Inr \<lparr>discrete_n = 256, action_table = [- 1, - 1 / 3, 1 / 3, 1], num_levels = 4, dims = 4\<rparr>
   \<and> action \<lparr>discrete_n = 256, action_table = [- 1, - 1 / 3, 1 / 3, 1], num_levels = 4, dims = 4\<rparr> 27
       = Inr [1, 1 / 3, - 1 / 3, - 1]
   \<and> reverse_action \<lparr>discrete_n = 256, action_table = [- 1, - 1 / 3, 1 / 3, 1], num_levels = 4, dims = 4\<rparr>
        [1, 1 / 3, - 1 / 3, - 1] = None
   \<and> reverse_action \<lparr>discrete_n = 256, action_table = [- 1, - 1 / 3, 1 / 3, 1], num_levels = 4, dims = 4\<rparr>
        [1, 1 / 3, - 1 / 3, - 1] \<noteq> Some 27"
  by (simp add: EnergyPlusDiscreteActionWrapper_init_def np_linspace_def action_def np_take_def
      reverse_action_def eval_nat_numeral upt_rec Let_def)

end
